theory Spec2Isabelle
  imports Complex_Main "HOL-Library.Multiset" "HOL-Library.Char_ord"
    "HOL-Library.List_Lexorder" "HOL-Library.Product_Lexorder"
begin

section \<open>The study tracker: store, timer and dashboard of tracker.py\<close>

text \<open>
  The program is one script, \<^verbatim>\<open>tracker.py\<close>. It keeps its history in one CSV file
  (\<^verbatim>\<open>study_history.csv\<close>) through two helpers, \<^verbatim>\<open>load_data\<close> and
  \<^verbatim>\<open>save_session\<close>, keeps four timer variables in the session state, and is executed
  from top to bottom once per script run; \<^verbatim>\<open>st.rerun()\<close> ends the run and asks for
  another.

  Conventions of the embedding:
  \<^item> Python integers are \<open>int\<close>. Python floats are modelled by exact rationals
    (\<open>rat\<close>): every duration the timer itself produces is a whole number of minutes,
    where the two agree.
  \<^item> A data frame is its list of column names and its list of rows, a row holding one
    cell per column. A missing value is the cell \<open>NaN\<close>.
  \<^item> The history file is modelled after parsing: a header and a list of lines of typed
    cells, so that \<^verbatim>\<open>to_csv\<close> followed by \<^verbatim>\<open>read_csv\<close> gives the frame back. The text
    format and the type inference of the CSV library are outside the script.
  \<^item> What the script reads from its surroundings is a parameter: the text inputs, the
    clock, the button pressed in this run, and whether the write to the file fails.
\<close>

subsection \<open>Data frames and the history file\<close>

datatype cell = S string | I int | F rat | NaN

record DataFrame =
  columns :: "string list"
  rows :: "cell list list"

datatype error = EmptyDataError | ParserError | KeyError | TypeError | ValueError | OSError

datatype csv = Csv (header: "string list") (body: "cell list list")

text \<open>The file system as the script sees it: \<open>None\<close> when the file does not exist.\<close>

type_synonym fs = "csv option"

definition DATA_COLUMNS :: "string list" where
  "DATA_COLUMNS = [''Date'', ''Subject'', ''Topic'', ''Duration_Minutes'', ''Breaks'']"

text \<open>The cell of a row under a column name; \<open>NaN\<close> where the row has none.\<close>

definition cell_at :: "string list \<Rightarrow> cell list \<Rightarrow> string \<Rightarrow> cell" where
  "cell_at cols r c = (case map_of (zip cols r) c of Some v \<Rightarrow> v | None \<Rightarrow> NaN)"

definition pad :: "nat \<Rightarrow> cell list \<Rightarrow> cell list" where
  "pad n r = r @ replicate (n - length r) NaN"

text \<open>
  \<^verbatim>\<open>pd.read_csv\<close>: an empty file has no columns to parse, a line with more fields than
  the header is a parser error, a shorter line is filled with missing values.
\<close>

definition read_csv :: "csv \<Rightarrow> error + DataFrame" where
  "read_csv f =
     (if header f = [] then Inl EmptyDataError
      else if list_ex (\<lambda>r. length (header f) < length r) (body f) then Inl ParserError
      else Inr \<lparr>columns = header f, rows = map (pad (length (header f))) (body f)\<rparr>)"

text \<open>\<^verbatim>\<open>df[c] = v\<close> for a column \<open>c\<close> the frame does not have yet.\<close>

definition add_column :: "DataFrame \<Rightarrow> string \<Rightarrow> cell \<Rightarrow> DataFrame" where
  "add_column df c v = \<lparr>columns = columns df @ [c], rows = map (\<lambda>r. r @ [v]) (rows df)\<rparr>"

definition load_data :: "fs \<Rightarrow> error + DataFrame" where
  "load_data file =
     (case file of
        Some f \<Rightarrow>
          (case read_csv f of
             Inl e \<Rightarrow> Inl e
           | Inr df \<Rightarrow>
               Inr (if ''Breaks'' \<notin> set (columns df) then add_column df ''Breaks'' (I 0) else df))
      | None \<Rightarrow> Inr \<lparr>columns = DATA_COLUMNS, rows = []\<rparr>)"

text \<open>
  \<^verbatim>\<open>DataFrame([{...}])\<close> of \<open>save_session\<close>: one row, the columns in the order of the
  dictionary. Python's \<^verbatim>\<open>round(x, 2)\<close> rounds to the nearest hundredth, a tie to the
  even one.
\<close>

definition round2 :: "rat \<Rightarrow> rat" where
  "round2 x =
     (let y = x * 100; n = \<lfloor>y\<rfloor>; d = y - of_int n
      in of_int (if d < 1 / 2 then n else if 1 / 2 < d then n + 1
                 else if even n then n else n + 1) / 100)"

definition new_entry :: "string \<Rightarrow> string \<Rightarrow> string \<Rightarrow> rat \<Rightarrow> int \<Rightarrow> DataFrame" where
  "new_entry now subject topic duration_minutes breaks =
     \<lparr>columns = [''Date'', ''Subject'', ''Topic'', ''Duration_Minutes'', ''Breaks''],
      rows = [[S now, S subject, S topic, F (round2 duration_minutes), I breaks]]\<rparr>"

text \<open>
  \<^verbatim>\<open>pd.concat([a, b], ignore_index=True)\<close>: the columns of \<open>a\<close>, then those of \<open>b\<close> that
  \<open>a\<close> lacks; every row is laid out again under these columns.
\<close>

definition reindex :: "string list \<Rightarrow> string list \<Rightarrow> cell list \<Rightarrow> cell list" where
  "reindex old new r = map (cell_at old r) new"

definition concat_frames :: "DataFrame \<Rightarrow> DataFrame \<Rightarrow> DataFrame" where
  "concat_frames a b =
     (let cols = columns a @ filter (\<lambda>c. c \<notin> set (columns a)) (columns b)
      in \<lparr>columns = cols,
          rows = map (reindex (columns a) cols) (rows a) @
                 map (reindex (columns b) cols) (rows b)\<rparr>)"

text \<open>
  \<^verbatim>\<open>df.to_csv(DATA_FILE, index=False)\<close> opens the file for writing, which empties it, and
  writes the header and then the rows. The write can fail on the way: \<open>Some k\<close> says that
  it fails when \<open>k\<close> lines have been written, \<open>None\<close> that it succeeds.
\<close>

definition written :: "DataFrame \<Rightarrow> nat \<Rightarrow> csv" where
  "written df k = (case k of 0 \<Rightarrow> Csv [] [] | Suc j \<Rightarrow> Csv (columns df) (take j (rows df)))"

definition to_csv :: "DataFrame \<Rightarrow> nat option \<Rightarrow> (error + unit) \<times> fs" where
  "to_csv df fault =
     (case fault of
        None \<Rightarrow> (Inr (), Some (Csv (columns df) (rows df)))
      | Some k \<Rightarrow> (Inl OSError, Some (written df k)))"

text \<open>
  \<open>save_session\<close> with what it reads from outside: the clock reading \<open>now\<close>, already
  formatted, the fault of the write and the file. An error of \<open>load_data\<close> leaves before
  anything is written.
\<close>

definition save_session ::
  "string \<Rightarrow> nat option \<Rightarrow> string \<Rightarrow> string \<Rightarrow> rat \<Rightarrow> int \<Rightarrow> fs \<Rightarrow> (error + unit) \<times> fs" where
  "save_session now fault subject topic duration_minutes breaks file =
     (case load_data file of
        Inl e \<Rightarrow> (Inl e, file)
      | Inr df \<Rightarrow>
          to_csv (concat_frames df (new_entry now subject topic duration_minutes breaks)) fault)"

subsection \<open>The timer\<close>

record session_state =
  time_left :: int
  timer_running :: bool
  initial_time :: int
  break_count :: int

definition init_state :: session_state where
  "init_state = \<lparr>time_left = 0, timer_running = False, initial_time = 0, break_count = 0\<rparr>"

text \<open>
  One run of the script sees the widgets' values and at most one pressed button. The
  number inputs keep \<open>hours\<close> within 0..24 and \<open>minutes\<close> within 0..59.
\<close>

datatype button = SetReset | Pause | Start

record inputs =
  subject :: string
  topic :: string
  hours :: int
  minutes :: int
  pressed :: "button option"
  clock :: string
  write_fault :: "nat option"

record world =
  state :: session_state
  data_file :: fs

text \<open>How a run ends: \<^verbatim>\<open>st.rerun()\<close>, the end of the script, or an exception.\<close>

datatype outcome = Rerun | Done | Raised error

definition widgets_ok :: "inputs \<Rightarrow> bool" where
  "widgets_ok i = (0 \<le> hours i \<and> hours i \<le> 24 \<and> 0 \<le> minutes i \<and> minutes i \<le> 59)"

text \<open>Lines 72 to 77: the handler of the Set / Reset button.\<close>

definition set_reset :: "inputs \<Rightarrow> session_state \<Rightarrow> session_state" where
  "set_reset i s =
     (let total_seconds = hours i * 3600 + minutes i * 60
      in s\<lparr>time_left := total_seconds, initial_time := total_seconds,
            timer_running := False, break_count := 0\<rparr>)"

text \<open>Lines 84 to 88: the value given to the progress bar.\<close>

definition progress :: "session_state \<Rightarrow> rat" where
  "progress s =
     (if initial_time s > 0
      then min (1 - of_int (time_left s) / of_int (initial_time s)) 1
      else 0)"

text \<open>Lines 104 to 118: the timer logic at the end of a run.\<close>

definition timer_logic :: "inputs \<Rightarrow> world \<Rightarrow> world \<times> outcome" where
  "timer_logic i w =
     (let s = state w in
      if timer_running s then
        if time_left s > 0 then
          (w\<lparr>state := s\<lparr>time_left := time_left s - 1\<rparr>\<rparr>, Rerun)
        else
          (let s1 = s\<lparr>timer_running := False\<rparr>
           in case save_session (clock i) (write_fault i) (subject i) (topic i)
                     (of_int (initial_time s1) / 60) (break_count s1) (data_file w) of
                (Inl e, f) \<Rightarrow> (\<lparr>state = s1, data_file = f\<rparr>, Raised e)
              | (Inr u, f) \<Rightarrow>
                  (\<lparr>state = s1\<lparr>time_left := 0, initial_time := 0, break_count := 0\<rparr>,
                    data_file = f\<rparr>, Rerun))
      else (w, Done))"

text \<open>
  One run of the script, lines 72 to 118. The Pause button exists only in a run that finds
  the timer running, the Start / Resume button only in a run that finds it stopped; their
  handlers end the run with \<^verbatim>\<open>st.rerun()\<close> before the timer logic.
\<close>

definition script :: "inputs \<Rightarrow> world \<Rightarrow> world \<times> outcome" where
  "script i w =
     (let s = (if pressed i = Some SetReset then set_reset i (state w) else state w) in
      if timer_running s then
        if pressed i = Some Pause then
          (w\<lparr>state := s\<lparr>timer_running := False, break_count := break_count s + 1\<rparr>\<rparr>, Rerun)
        else timer_logic i (w\<lparr>state := s\<rparr>)
      else
        if pressed i = Some Start then
          (w\<lparr>state := s\<lparr>timer_running := True\<rparr>\<rparr>, Rerun)
        else timer_logic i (w\<lparr>state := s\<rparr>))"

text \<open>A sequence of runs, each with its own inputs.\<close>

fun runs :: "inputs list \<Rightarrow> world \<Rightarrow> world" where
  "runs [] w = w"
| "runs (i # is) w = runs is (fst (script i w))"

text \<open>
  The traces of one study session. After Set / Reset and Start / Resume, a \<open>Tick\<close> is a run
  without a pressed button, and a \<open>Break\<close> is a press of Pause, the run its
  \<^verbatim>\<open>st.rerun()\<close> starts, and a press of Start / Resume. The other widgets hold the
  values of \<open>b\<close> throughout.
\<close>

datatype step = Tick | Break

definition press :: "inputs \<Rightarrow> button option \<Rightarrow> inputs" where
  "press b p = b\<lparr>pressed := p\<rparr>"

fun expand :: "inputs \<Rightarrow> step list \<Rightarrow> inputs list" where
  "expand b [] = []"
| "expand b (Tick # ops) = press b None # expand b ops"
| "expand b (Break # ops) =
     press b (Some Pause) # press b None # press b (Some Start) # expand b ops"

text \<open>The widgets as the page first shows them (lines 64 to 70), at some clock reading.\<close>

definition default_inputs :: inputs where
  "default_inputs =
     \<lparr>subject = ''General'', topic = ''Study Session'', hours = 0, minutes = 25,
      pressed = None, clock = ''2024-01-01 09:00'', write_fault = None\<rparr>"

text \<open>A press of Set / Reset with the given hours and minutes, the other widgets untouched.\<close>

definition configure :: "int \<Rightarrow> int \<Rightarrow> inputs" where
  "configure h m = default_inputs\<lparr>hours := h, minutes := m, pressed := Some SetReset\<rparr>"

text \<open>Lines 42 to 49: a new session, here with no history file yet.\<close>

definition fresh :: world where
  "fresh = \<lparr>state = init_state, data_file = None\<rparr>"

subsection \<open>The dashboard\<close>

text \<open>
  \<^verbatim>\<open>df[c]\<close>, a column as a series. The reductions below skip missing values; a text cell
  in a column that is summed or compared is reported as \<open>TypeError\<close>.
\<close>

definition column :: "DataFrame \<Rightarrow> string \<Rightarrow> error + cell list" where
  "column df c =
     (if c \<in> set (columns df) then Inr (map (\<lambda>r. cell_at (columns df) r c) (rows df))
      else Inl KeyError)"

fun is_text :: "cell \<Rightarrow> bool" where
  "is_text (S s) = True"
| "is_text c = False"

fun number :: "cell \<Rightarrow> rat" where
  "number (I n) = of_int n"
| "number (F x) = x"
| "number c = 0"

text \<open>The cells that hold a number, and the duration of a row (line 147 reads it).\<close>

fun is_number :: "cell \<Rightarrow> bool" where
  "is_number (I n) = True"
| "is_number (F x) = True"
| "is_number c = False"

definition duration_of :: "DataFrame \<Rightarrow> cell list \<Rightarrow> cell" where
  "duration_of df r = cell_at (columns df) r ''Duration_Minutes''"

text \<open>
  \<^verbatim>\<open>idxmax\<close> and \<^verbatim>\<open>idxmin\<close>: one pass from the left that keeps the best position so far
  and replaces it only by a strictly better value.
\<close>

fun first_best ::
  "(rat \<Rightarrow> rat \<Rightarrow> bool) \<Rightarrow> cell list \<Rightarrow> nat \<Rightarrow> (nat \<times> rat) option \<Rightarrow> (nat \<times> rat) option" where
  "first_best better [] k best = best"
| "first_best better (x # xs) k best =
     first_best better xs (Suc k)
       (if x = NaN then best
        else case best of
               None \<Rightarrow> Some (k, number x)
             | Some (j, v) \<Rightarrow> if better (number x) v then Some (k, number x) else best)"

definition idx_best :: "(rat \<Rightarrow> rat \<Rightarrow> bool) \<Rightarrow> cell list \<Rightarrow> error + nat" where
  "idx_best better xs =
     (if list_ex is_text xs then Inl TypeError
      else case first_best better xs 0 None of
             None \<Rightarrow> Inl ValueError
           | Some (k, v) \<Rightarrow> Inr k)"

definition idxmax :: "cell list \<Rightarrow> error + nat" where
  "idxmax xs = idx_best (\<lambda>a b. b < a) xs"

definition idxmin :: "cell list \<Rightarrow> error + nat" where
  "idxmin xs = idx_best (\<lambda>a b. a < b) xs"

text \<open>\<^verbatim>\<open>df.loc[k]\<close> on the default index 0, 1, 2, ...\<close>

definition loc :: "DataFrame \<Rightarrow> nat \<Rightarrow> error + cell list" where
  "loc df k = (if k < length (rows df) then Inr (rows df ! k) else Inl KeyError)"

text \<open>Lines 146 and 150: the rows shown as longest and shortest session.\<close>

definition longest :: "DataFrame \<Rightarrow> error + cell list" where
  "longest df =
     (case column df ''Duration_Minutes'' of
        Inl e \<Rightarrow> Inl e
      | Inr xs \<Rightarrow> (case idxmax xs of Inl e \<Rightarrow> Inl e | Inr k \<Rightarrow> loc df k))"

definition shortest :: "DataFrame \<Rightarrow> error + cell list" where
  "shortest df =
     (case column df ''Duration_Minutes'' of
        Inl e \<Rightarrow> Inl e
      | Inr xs \<Rightarrow> (case idxmin xs of Inl e \<Rightarrow> Inl e | Inr k \<Rightarrow> loc df k))"







section \<open>Facts about the store\<close>

lemma cell_at_reindex:
  "c \<in> set new \<Longrightarrow> cell_at new (reindex old new r) c = cell_at old r c"
  by (simp add: cell_at_def reindex_def map_of_zip_map)



lemma length_pad: "length r \<le> n \<Longrightarrow> length (pad n r) = n"
  by (simp add: pad_def)


lemma read_csv_Inr:
  "read_csv f = Inr df \<Longrightarrow>
     header f \<noteq> [] \<and> columns df = header f \<and>
     rows df = map (pad (length (header f))) (body f) \<and>
     list_all (\<lambda>r. length r = length (columns df)) (rows df)"
  by (auto simp: read_csv_def list_all_iff list_ex_iff not_less length_pad split: if_splits)

lemma load_data_Inr:
  assumes "load_data fl = Inr df"
  shows "''Breaks'' \<in> set (columns df) \<and> list_all (\<lambda>r. length r = length (columns df)) (rows df)"
proof (cases fl)
  case None
  with assms show ?thesis by (auto simp: load_data_def DATA_COLUMNS_def)
next
  case (Some f)
  with assms obtain d where d: "read_csv f = Inr d"
    and df: "df = (if ''Breaks'' \<notin> set (columns d) then add_column d ''Breaks'' (I 0) else d)"
    by (auto simp: load_data_def split: sum.splits)
  from read_csv_Inr[OF d] have r: "list_all (\<lambda>r. length r = length (columns d)) (rows d)"
    by blast
  show ?thesis
  proof (cases "''Breaks'' \<in> set (columns d)")
    case True
    with df r show ?thesis by simp
  next
    case False
    with df have "df = add_column d ''Breaks'' (I 0)" by simp
    with r show ?thesis by (auto simp: add_column_def list_all_iff)
  qed
qed

lemma concat_new_entry:
  "concat_frames df (new_entry now sbj tpc d b) =
     (let cols = columns df @ filter (\<lambda>c. c \<notin> set (columns df)) DATA_COLUMNS
      in \<lparr>columns = cols,
          rows = map (reindex (columns df) cols) (rows df) @
                 [reindex DATA_COLUMNS cols [S now, S sbj, S tpc, F (round2 d), I b]]\<rparr>)"
  by (simp add: concat_frames_def new_entry_def DATA_COLUMNS_def Let_def)

lemma save_session_ok:
  assumes "load_data fl = Inr df"
  shows "save_session now None sbj tpc d b fl =
     (Inr (), Some (Csv (columns (concat_frames df (new_entry now sbj tpc d b)))
                        (rows (concat_frames df (new_entry now sbj tpc d b)))))"
  using assms by (simp add: save_session_def to_csv_def)




lemma map_of_zip_self:
  "distinct cols \<Longrightarrow> length r = length cols \<Longrightarrow> map (\<lambda>c. the (map_of (zip cols r) c)) cols = r"
proof (induction cols arbitrary: r)
  case Nil
  then show ?case by simp
next
  case (Cons a cols)
  then obtain x xs where r: "r = x # xs" by (cases r) auto
  have "map (\<lambda>c. the (map_of (zip (a # cols) r) c)) cols = map (\<lambda>c. the (map_of (zip cols xs) c)) cols"
    using Cons.prems r by (intro map_cong) auto
  also have "\<dots> = xs" using Cons.prems r by (intro Cons.IH) auto
  finally show ?case using r by simp
qed

lemma reindex_same:
  assumes "distinct cols" "length r = length cols"
  shows "reindex cols cols r = r"
proof -
  have "map (cell_at cols r) cols = map (\<lambda>c. the (map_of (zip cols r) c)) cols"
  proof (intro map_cong refl)
    fix c assume "c \<in> set cols"
    then have "c \<in> dom (map_of (zip cols r))" using assms(2) by simp
    then show "cell_at cols r c = the (map_of (zip cols r) c)" by (auto simp: cell_at_def)
  qed
  then show ?thesis using map_of_zip_self[OF assms] by (simp add: reindex_def)
qed

lemma cell_at_snoc_new:
  "length r = length h \<Longrightarrow> cell_at (h @ [c]) (r @ [v]) c = (if c \<in> set h then cell_at h r c else v)"
  by (auto simp: cell_at_def map_add_def split: option.splits dest: map_of_SomeD set_zip_leftD)

lemma cell_at_snoc_old:
  "length r = length h \<Longrightarrow> c \<in> set h \<Longrightarrow> cell_at (h @ [b]) (r @ [v]) c = cell_at h r c"
  by (auto simp: cell_at_def map_add_def split: option.splits)

lemma map_of_zip_replicate:
  "map_of (zip h (replicate n NaN)) c = Some v \<Longrightarrow> v = NaN"
  by (auto dest!: map_of_SomeD set_zip_rightD)

lemma cell_at_all_missing: "cell_at h (replicate n NaN) c = NaN"
  using map_of_zip_replicate[of h n c]
  by (cases "map_of (zip h (replicate n NaN)) c") (auto simp: cell_at_def)

lemma cell_at_pad:
  "length r \<le> length h \<Longrightarrow> cell_at h (pad (length h) r) c = cell_at h r c"
proof (induction h arbitrary: r)
  case Nil
  then show ?case by (simp add: pad_def)
next
  case (Cons a h)
  show ?case
  proof (cases r)
    case Nil
    have "pad (length (a # h)) r = replicate (Suc (length h)) NaN"
      using Nil by (simp add: pad_def)
    moreover have "cell_at (a # h) r c = NaN" using Nil by (simp add: cell_at_def)
    ultimately show ?thesis by (simp only: cell_at_all_missing)
  next
    case (Cons x xs)
    with Cons.prems have "length xs \<le> length h" by simp
    from Cons.IH[OF this] show ?thesis using Cons by (simp add: cell_at_def pad_def)
  qed
qed



section \<open>Facts about the timer\<close>

lemma script_tick:
  "timer_running (state w) \<Longrightarrow> 0 < time_left (state w) \<Longrightarrow>
   script (press b None) w = (w\<lparr>state := (state w)\<lparr>time_left := time_left (state w) - 1\<rparr>\<rparr>, Rerun)"
  by (simp add: script_def timer_logic_def press_def Let_def)

lemma script_pause:
  "timer_running (state w) \<Longrightarrow>
   script (press b (Some Pause)) w =
     (w\<lparr>state := (state w)\<lparr>timer_running := False, break_count := break_count (state w) + 1\<rparr>\<rparr>, Rerun)"
  by (simp add: script_def press_def Let_def)

lemma script_idle:
  "\<not> timer_running (state w) \<Longrightarrow> script (press b None) w = (w, Done)"
  by (simp add: script_def timer_logic_def press_def Let_def)

lemma script_start:
  "\<not> timer_running (state w) \<Longrightarrow>
   script (press b (Some Start)) w = (w\<lparr>state := (state w)\<lparr>timer_running := True\<rparr>\<rparr>, Rerun)"
  by (simp add: script_def press_def Let_def)

lemma script_set_reset:
  "pressed c = Some SetReset \<Longrightarrow>
   script c w = (w\<lparr>state := set_reset c (state w)\<rparr>, Done)"
  by (simp add: script_def timer_logic_def set_reset_def Let_def)

lemma running_update: "timer_running s \<Longrightarrow> s\<lparr>timer_running := True\<rparr> = s"
  by (cases s) simp

lemma runs_append: "runs (xs @ ys) w = runs ys (runs xs w)"
  by (induction xs arbitrary: w) auto

lemma runs_expand:
  "timer_running (state w) \<Longrightarrow> int (count_list ops Tick) \<le> time_left (state w) \<Longrightarrow>
   runs (expand b ops) w =
     w\<lparr>state := (state w)\<lparr>time_left := time_left (state w) - int (count_list ops Tick),
                            break_count := break_count (state w) + int (count_list ops Break)\<rparr>\<rparr>"
proof (induction ops arbitrary: w)
  case Nil
  then show ?case by simp
next
  case (Cons x ops)
  show ?case
  proof (cases x)
    case Tick
    with Cons.prems have pos: "0 < time_left (state w)" by simp
    let ?w = "w\<lparr>state := (state w)\<lparr>time_left := time_left (state w) - 1\<rparr>\<rparr>"
    have "runs (expand b (x # ops)) w = runs (expand b ops) ?w"
      using Tick Cons.prems(1) pos by (simp add: script_tick)
    also have "\<dots> = ?w\<lparr>state := (state ?w)\<lparr>time_left := time_left (state ?w) - int (count_list ops Tick),
                            break_count := break_count (state ?w) + int (count_list ops Break)\<rparr>\<rparr>"
      using Cons.prems Tick by (intro Cons.IH) auto
    finally show ?thesis using Tick by simp
  next
    case Break
    let ?w1 = "w\<lparr>state := (state w)\<lparr>timer_running := False, break_count := break_count (state w) + 1\<rparr>\<rparr>"
    let ?w = "w\<lparr>state := (state w)\<lparr>break_count := break_count (state w) + 1\<rparr>\<rparr>"
    have "runs (expand b (x # ops)) w = runs (expand b ops) ?w"
      using Break Cons.prems(1)
      by (simp add: script_pause script_idle script_start running_update)
    also have "\<dots> = ?w\<lparr>state := (state ?w)\<lparr>time_left := time_left (state ?w) - int (count_list ops Tick),
                            break_count := break_count (state ?w) + int (count_list ops Break)\<rparr>\<rparr>"
      using Cons.prems Break by (intro Cons.IH) auto
    finally show ?thesis using Break by simp
  qed
qed

lemma count_list_replicate_same: "count_list (replicate n x) x = n"
  by (induction n) auto

lemma script_expire:
  assumes "timer_running (state w)" "time_left (state w) \<le> 0"
    "pressed i \<noteq> Some SetReset" "pressed i \<noteq> Some Pause"
  shows "script i w =
     (case save_session (clock i) (write_fault i) (subject i) (topic i)
             (of_int (initial_time (state w)) / 60) (break_count (state w)) (data_file w) of
        (Inl e, f) \<Rightarrow> (\<lparr>state = (state w)\<lparr>timer_running := False\<rparr>, data_file = f\<rparr>, Raised e)
      | (Inr u, f) \<Rightarrow>
          (\<lparr>state = \<lparr>time_left = 0, timer_running = False, initial_time = 0, break_count = 0\<rparr>,
            data_file = f\<rparr>, Rerun))"
  using assms
  by (cases w; cases "state w")
     (auto simp: script_def timer_logic_def Let_def split: prod.splits sum.splits)

lemma runs_session:
  assumes "pressed c = Some SetReset" and "int (count_list ops Tick) \<le> hours c * 3600 + minutes c * 60"
  shows "runs (c # press b (Some Start) # expand b ops) w =
     \<lparr>state = \<lparr>time_left = hours c * 3600 + minutes c * 60 - int (count_list ops Tick),
               timer_running = True,
               initial_time = hours c * 3600 + minutes c * 60,
               break_count = int (count_list ops Break)\<rparr>,
      data_file = data_file w\<rparr>"
proof -
  let ?w1 = "w\<lparr>state := set_reset c (state w)\<rparr>"
  let ?w2 = "?w1\<lparr>state := (state ?w1)\<lparr>timer_running := True\<rparr>\<rparr>"
  have 1: "fst (script c w) = ?w1" using assms(1) by (simp add: script_set_reset)
  have 2: "fst (script (press b (Some Start)) ?w1) = ?w2"
    by (subst script_start) (simp_all add: set_reset_def Let_def)
  have 3: "timer_running (state ?w2)" by simp
  have 4: "int (count_list ops Tick) \<le> time_left (state ?w2)"
    using assms(2) by (simp add: set_reset_def Let_def)
  have "runs (c # press b (Some Start) # expand b ops) w = runs (expand b ops) ?w2"
    using 1 2 by simp
  also note runs_expand[OF 3 4]
  finally show ?thesis by (cases w; cases "state w") (simp add: set_reset_def Let_def)
qed

text \<open>The timer only ever saves whole minutes, which the rounding leaves alone.\<close>

lemma new_row_cells:
  "cell_at DATA_COLUMNS [a, b, c, d, e] ''Date'' = a"
  "cell_at DATA_COLUMNS [a, b, c, d, e] ''Subject'' = b"
  "cell_at DATA_COLUMNS [a, b, c, d, e] ''Topic'' = c"
  "cell_at DATA_COLUMNS [a, b, c, d, e] ''Duration_Minutes'' = d"
  "cell_at DATA_COLUMNS [a, b, c, d, e] ''Breaks'' = e"
  by (simp_all add: cell_at_def DATA_COLUMNS_def)

lemma round2_of_int: "round2 (of_int n) = of_int n"
proof -
  have y: "(of_int n :: rat) * 100 = of_int (n * 100)" by simp
  show ?thesis unfolding round2_def y Let_def floor_of_int by simp
qed

lemma minutes_exact: "round2 (of_int (h * 3600 + m * 60) / 60) = of_int (h * 60 + m)"
proof -
  have "(of_int (h * 3600 + m * 60) :: rat) / 60 = of_int (h * 60 + m)"
    by simp
  then show ?thesis by (simp only: round2_of_int)
qed

lemma script_keeps_range:
  assumes "widgets_ok i" and "0 \<le> time_left (state w) \<and> time_left (state w) \<le> initial_time (state w)"
  shows "0 \<le> time_left (state (fst (script i w))) \<and>
         time_left (state (fst (script i w))) \<le> initial_time (state (fst (script i w)))"
  using assms
  by (auto simp: script_def timer_logic_def set_reset_def widgets_ok_def Let_def
           split: prod.splits sum.splits)

lemma runs_keep_range:
  "list_all widgets_ok js \<Longrightarrow>
   0 \<le> time_left (state w) \<and> time_left (state w) \<le> initial_time (state w) \<Longrightarrow>
   0 \<le> time_left (state (runs js w)) \<and> time_left (state (runs js w)) \<le> initial_time (state (runs js w))"
proof (induction js arbitrary: w)
  case Nil
  then show ?case by simp
next
  case (Cons j js)
  from Cons.prems have "widgets_ok j" "list_all widgets_ok js" by simp_all
  with Cons.prems(2) Cons.IH[of "fst (script j w)"] script_keeps_range[of j w]
  show ?case by simp
qed

lemma progress_range:
  assumes "0 \<le> time_left s" "time_left s \<le> initial_time s"
  shows "0 \<le> progress s \<and> progress s \<le> 1"
proof (cases "0 < initial_time s")
  case True
  then have p: "(0::rat) < of_int (initial_time s)" by simp
  have "(of_int (time_left s) :: rat) / of_int (initial_time s) \<le> 1"
    using assms(2) p by (simp add: divide_le_eq)
  moreover have "(0::rat) \<le> of_int (time_left s) / of_int (initial_time s)"
    using assms(1) p by simp
  ultimately show ?thesis using True by (simp add: progress_def)
next
  case False
  then show ?thesis by (simp add: progress_def)
qed

section \<open>Facts about the dashboard\<close>









lemma first_best_spec:
  assumes ord: "\<And>a b. better a b \<longleftrightarrow> (g b :: rat) < g a"
  shows "first_best better xs k best = Some (j, v) \<Longrightarrow>
     (\<forall>x \<in> set xs. x \<noteq> NaN \<longrightarrow> g (number x) \<le> g v) \<and>
     (\<forall>j0 v0. best = Some (j0, v0) \<longrightarrow> g v0 \<le> g v) \<and>
     (best = Some (j, v) \<or>
      (\<exists>i. j = k + i \<and> i < length xs \<and> xs ! i \<noteq> NaN \<and> number (xs ! i) = v \<and>
           (\<forall>i' < i. xs ! i' \<noteq> NaN \<longrightarrow> g (number (xs ! i')) < g v) \<and>
           (\<forall>j0 v0. best = Some (j0, v0) \<longrightarrow> g v0 < g v)))"
proof (induction xs arbitrary: k best)
  case Nil
  then show ?case by simp
next
  case (Cons x xs)
  let ?b = "if x = NaN then best
        else case best of
               None \<Rightarrow> Some (k, number x)
             | Some (j0, v0) \<Rightarrow> if better (number x) v0 then Some (k, number x) else best"
  from Cons.prems have run: "first_best better xs (Suc k) ?b = Some (j, v)" by simp
  note IH = Cons.IH[OF run]
  from IH have all: "\<forall>y \<in> set xs. y \<noteq> NaN \<longrightarrow> g (number y) \<le> g v" by blast
  from IH have acc: "\<forall>j0 v0. ?b = Some (j0, v0) \<longrightarrow> g v0 \<le> g v" by blast
  from IH have pos: "?b = Some (j, v) \<or>
      (\<exists>i. j = Suc k + i \<and> i < length xs \<and> xs ! i \<noteq> NaN \<and> number (xs ! i) = v \<and>
           (\<forall>i' < i. xs ! i' \<noteq> NaN \<longrightarrow> g (number (xs ! i')) < g v) \<and>
           (\<forall>j0 v0. ?b = Some (j0, v0) \<longrightarrow> g v0 < g v))" by blast
  have later: "\<exists>i. j = k + i \<and> i < length (x # xs) \<and> (x # xs) ! i \<noteq> NaN \<and>
           number ((x # xs) ! i) = v \<and>
           (\<forall>i' < i. (x # xs) ! i' \<noteq> NaN \<longrightarrow> g (number ((x # xs) ! i')) < g v)"
    if i: "j = Suc k + i" "i < length xs" "xs ! i \<noteq> NaN" "number (xs ! i) = v"
       "\<forall>i' < i. xs ! i' \<noteq> NaN \<longrightarrow> g (number (xs ! i')) < g v"
      and hd: "x \<noteq> NaN \<longrightarrow> g (number x) < g v" for i
  proof (intro exI[of _ "Suc i"] conjI allI impI)
    show "j = k + Suc i" using i(1) by simp
    show "Suc i < length (x # xs)" using i(2) by simp
    show "(x # xs) ! Suc i \<noteq> NaN" using i(3) by simp
    show "number ((x # xs) ! Suc i) = v" using i(4) by simp
    fix i' assume "i' < Suc i" "(x # xs) ! i' \<noteq> NaN"
    then show "g (number ((x # xs) ! i')) < g v"
      using i(5) hd by (cases i') auto
  qed
  show ?case
  proof (cases "x = NaN")
    case True
    then have b: "?b = best" by simp
    show ?thesis using all acc pos later True unfolding b by (auto simp del: nth_Cons_Suc)
  next
    case xn: False
    show ?thesis
    proof (cases best)
      case None
      then have b: "?b = Some (k, number x)" using xn by simp
      from acc b have xv: "g (number x) \<le> g v" by simp
      from pos b have "(j = k \<and> v = number x) \<or>
        (\<exists>i. j = Suc k + i \<and> i < length xs \<and> xs ! i \<noteq> NaN \<and> number (xs ! i) = v \<and>
           (\<forall>i' < i. xs ! i' \<noteq> NaN \<longrightarrow> g (number (xs ! i')) < g v) \<and> g (number x) < g v)"
        by auto
      then have "\<exists>i. j = k + i \<and> i < length (x # xs) \<and> (x # xs) ! i \<noteq> NaN \<and>
           number ((x # xs) ! i) = v \<and>
           (\<forall>i' < i. (x # xs) ! i' \<noteq> NaN \<longrightarrow> g (number ((x # xs) ! i')) < g v)"
      proof
        assume "j = k \<and> v = number x"
        then show ?thesis using xn by (intro exI[of _ 0]) simp
      next
        assume "\<exists>i. j = Suc k + i \<and> i < length xs \<and> xs ! i \<noteq> NaN \<and> number (xs ! i) = v \<and>
           (\<forall>i' < i. xs ! i' \<noteq> NaN \<longrightarrow> g (number (xs ! i')) < g v) \<and> g (number x) < g v"
        then obtain i where "j = Suc k + i" "i < length xs" "xs ! i \<noteq> NaN" "number (xs ! i) = v"
           "\<forall>i' < i. xs ! i' \<noteq> NaN \<longrightarrow> g (number (xs ! i')) < g v" "g (number x) < g v"
          by blast
        then show ?thesis by (intro later) simp_all
      qed
      then show ?thesis using all xv None by auto
    next
      case (Some p)
      obtain j0 v0 where p: "p = (j0, v0)" by (cases p)
      show ?thesis
      proof (cases "better (number x) v0")
        case True
        then have lt: "g v0 < g (number x)" using ord by simp
        have b: "?b = Some (k, number x)" using xn Some p True by simp
        from acc b have xv: "g (number x) \<le> g v" by simp
        from pos b have "(j = k \<and> v = number x) \<or>
          (\<exists>i. j = Suc k + i \<and> i < length xs \<and> xs ! i \<noteq> NaN \<and> number (xs ! i) = v \<and>
             (\<forall>i' < i. xs ! i' \<noteq> NaN \<longrightarrow> g (number (xs ! i')) < g v) \<and> g (number x) < g v)"
          by auto
        then have "\<exists>i. j = k + i \<and> i < length (x # xs) \<and> (x # xs) ! i \<noteq> NaN \<and>
             number ((x # xs) ! i) = v \<and>
             (\<forall>i' < i. (x # xs) ! i' \<noteq> NaN \<longrightarrow> g (number ((x # xs) ! i')) < g v)"
        proof
          assume "j = k \<and> v = number x"
          then show ?thesis using xn by (intro exI[of _ 0]) simp
        next
          assume "\<exists>i. j = Suc k + i \<and> i < length xs \<and> xs ! i \<noteq> NaN \<and> number (xs ! i) = v \<and>
             (\<forall>i' < i. xs ! i' \<noteq> NaN \<longrightarrow> g (number (xs ! i')) < g v) \<and> g (number x) < g v"
          then obtain i where "j = Suc k + i" "i < length xs" "xs ! i \<noteq> NaN" "number (xs ! i) = v"
             "\<forall>i' < i. xs ! i' \<noteq> NaN \<longrightarrow> g (number (xs ! i')) < g v" "g (number x) < g v"
            by blast
          then show ?thesis by (intro later) simp_all
        qed
        moreover have "g v0 < g v" using lt xv by simp
        ultimately show ?thesis using all xv Some p by auto
      next
        case False
        then have le: "g (number x) \<le> g v0" using ord by (simp add: not_less)
        have b: "?b = best" using xn Some p False by simp
        from acc b Some p have v0v: "g v0 \<le> g v" by simp
        then have xv: "g (number x) \<le> g v" using le by simp
        from pos have "best = Some (j, v) \<or>
          (\<exists>i. j = k + i \<and> i < length (x # xs) \<and> (x # xs) ! i \<noteq> NaN \<and>
             number ((x # xs) ! i) = v \<and>
             (\<forall>i' < i. (x # xs) ! i' \<noteq> NaN \<longrightarrow> g (number ((x # xs) ! i')) < g v) \<and>
             g v0 < g v)"
          unfolding b
        proof
          assume "best = Some (j, v)"
          then show ?thesis by simp
        next
          assume "\<exists>i. j = Suc k + i \<and> i < length xs \<and> xs ! i \<noteq> NaN \<and> number (xs ! i) = v \<and>
             (\<forall>i' < i. xs ! i' \<noteq> NaN \<longrightarrow> g (number (xs ! i')) < g v) \<and>
             (\<forall>j0 v0. best = Some (j0, v0) \<longrightarrow> g v0 < g v)"
          then obtain i where i: "j = Suc k + i" "i < length xs" "xs ! i \<noteq> NaN" "number (xs ! i) = v"
             "\<forall>i' < i. xs ! i' \<noteq> NaN \<longrightarrow> g (number (xs ! i')) < g v"
             and s: "g v0 < g v"
            using Some p by blast
          have "g (number x) < g v" using le s by simp
          with i have "\<exists>i. j = k + i \<and> i < length (x # xs) \<and> (x # xs) ! i \<noteq> NaN \<and>
             number ((x # xs) ! i) = v \<and>
             (\<forall>i' < i. (x # xs) ! i' \<noteq> NaN \<longrightarrow> g (number ((x # xs) ! i')) < g v)"
            by (intro later) simp_all
          with s show ?thesis by blast
        qed
        then show ?thesis using all xv v0v Some p by auto
      qed
    qed
  qed
qed

lemma column_duration:
  "column df ''Duration_Minutes'' =
     (if ''Duration_Minutes'' \<in> set (columns df) then Inr (map (duration_of df) (rows df))
      else Inl KeyError)"
  by (simp add: column_def duration_of_def)

lemma idx_best_spec:
  assumes ord: "\<And>a b. better a b \<longleftrightarrow> (g b :: rat) < g a"
    and res: "idx_best better xs = Inr j"
  shows "j < length xs \<and> xs ! j \<noteq> NaN \<and>
         (\<forall>i < length xs. xs ! i \<noteq> NaN \<longrightarrow> g (number (xs ! i)) \<le> g (number (xs ! j))) \<and>
         (\<forall>i < j. xs ! i \<noteq> NaN \<longrightarrow> g (number (xs ! i)) < g (number (xs ! j)))"
proof -
  from res obtain v where fb: "first_best better xs 0 None = Some (j, v)"
    by (auto simp: idx_best_def split: if_splits option.splits)
  from first_best_spec[of better g, OF ord fb]
  have all: "\<forall>x \<in> set xs. x \<noteq> NaN \<longrightarrow> g (number x) \<le> g v"
    and pos: "j < length xs \<and> xs ! j \<noteq> NaN \<and> number (xs ! j) = v \<and>
           (\<forall>i' < j. xs ! i' \<noteq> NaN \<longrightarrow> g (number (xs ! i')) < g v)"
    by auto
  from all have "\<forall>i < length xs. xs ! i \<noteq> NaN \<longrightarrow> g (number (xs ! i)) \<le> g v"
    by simp
  with pos show ?thesis by simp
qed

lemma idx_best_single:
  "is_number x \<Longrightarrow> idx_best better [x] = Inr 0"
  by (cases x) (simp_all add: idx_best_def)

lemma record_row:
  assumes ord: "\<And>a b. better a b \<longleftrightarrow> (g b :: rat) < g a"
    and res: "(case column df ''Duration_Minutes'' of
                 Inl e \<Rightarrow> Inl e
               | Inr xs \<Rightarrow> (case idx_best better xs of Inl e \<Rightarrow> Inl e | Inr k \<Rightarrow> loc df k)) = Inr r"
  shows "\<exists>k < length (rows df). r = rows df ! k \<and> duration_of df r \<noteq> NaN \<and>
           (\<forall>i < length (rows df). duration_of df (rows df ! i) \<noteq> NaN \<longrightarrow>
              g (number (duration_of df (rows df ! i))) \<le> g (number (duration_of df r))) \<and>
           (\<forall>i < k. duration_of df (rows df ! i) \<noteq> NaN \<longrightarrow>
              g (number (duration_of df (rows df ! i))) < g (number (duration_of df r)))"
proof -
  let ?xs = "map (duration_of df) (rows df)"
  from res obtain k where col: "column df ''Duration_Minutes'' = Inr ?xs"
    and k: "idx_best better ?xs = Inr k" and r: "loc df k = Inr r"
    by (auto simp: column_duration split: if_splits sum.splits)
  note sp = idx_best_spec[of better g, OF ord k]
  from sp have kl: "k < length (rows df)" by simp
  have at: "?xs ! i = duration_of df (rows df ! i)" if "i < length (rows df)" for i
    using that by simp
  from sp have nn: "duration_of df (rows df ! k) \<noteq> NaN"
    using at[OF kl] by simp
  have mx: "g (number (duration_of df (rows df ! i))) \<le> g (number (duration_of df (rows df ! k)))"
    if "i < length (rows df)" "duration_of df (rows df ! i) \<noteq> NaN" for i
    using sp that at[OF kl] at[OF that(1)] by simp
  have fs: "g (number (duration_of df (rows df ! i))) < g (number (duration_of df (rows df ! k)))"
    if "i < k" "duration_of df (rows df ! i) \<noteq> NaN" for i
  proof -
    from that(1) kl have il: "i < length (rows df)" by simp
    from sp that(1) have "?xs ! i \<noteq> NaN \<longrightarrow> g (number (?xs ! i)) < g (number (?xs ! k))"
      by blast
    then show ?thesis using that(2) unfolding at[OF kl] at[OF il] by simp
  qed
  from r kl have rk: "r = rows df ! k" by (simp add: loc_def)
  show ?thesis
  proof (intro exI[of _ k] conjI allI impI)
    show "k < length (rows df)" by (rule kl)
    show "r = rows df ! k" by (rule rk)
    show "duration_of df r \<noteq> NaN" using nn rk by simp
    show "g (number (duration_of df (rows df ! i))) \<le> g (number (duration_of df r))"
      if "i < length (rows df)" "duration_of df (rows df ! i) \<noteq> NaN" for i
      using mx[OF that] rk by simp
    show "g (number (duration_of df (rows df ! i))) < g (number (duration_of df r))"
      if "i < k" "duration_of df (rows df ! i) \<noteq> NaN" for i
      using fs[OF that] rk by simp
  qed
qed

section \<open>The claims\<close>

text \<open>
  C9. When the history file is absent, \<open>load_data\<close> does not raise and returns the empty
  table whose columns are exactly Date, Subject, Topic, Duration_Minutes, Breaks.
\<close>

theorem C9_load_absent:
  "load_data None =
     Inr \<lparr>columns = [''Date'', ''Subject'', ''Topic'', ''Duration_Minutes'', ''Breaks''],
          rows = []\<rparr>"
  by (simp add: load_data_def DATA_COLUMNS_def)

text \<open>
  C1, as stated: with nothing left on the timer, Start / Resume changes nothing and nothing
  is persisted. It fails: after Set / Reset with 0 hours and 0 minutes, the press of
  Start / Resume sets the timer running, and the run that follows writes a session of 0
  minutes to the history file.
\<close>

theorem C1_start_at_zero_counterexample:
  "time_left (state (runs [configure 0 0] fresh)) = 0 \<and>
   runs [configure 0 0, press default_inputs (Some Start)] fresh \<noteq> runs [configure 0 0] fresh \<and>
   timer_running (state (runs [configure 0 0, press default_inputs (Some Start)] fresh)) \<and>
   data_file (runs [configure 0 0] fresh) = None \<and>
   data_file (runs [configure 0 0, press default_inputs (Some Start), press default_inputs None] fresh) =
     Some (Csv [''Date'', ''Subject'', ''Topic'', ''Duration_Minutes'', ''Breaks'']
             [[S ''2024-01-01 09:00'', S ''General'', S ''Study Session'', F 0, I 0]])"
  by (simp add: configure_def fresh_def init_state_def default_inputs_def press_def script_def
      timer_logic_def set_reset_def save_session_def load_data_def to_csv_def concat_frames_def
      new_entry_def DATA_COLUMNS_def reindex_def cell_at_def round2_def Let_def)

text \<open>
  C1, amended. The handler of Start / Resume has no test of the time left: on a stopped
  timer it always sets the timer running and changes nothing else. With nothing left,
  the next run without a pressed button takes the expiry branch and calls \<open>save_session\<close>
  with the initial time in minutes and the break count.
\<close>

theorem C1_start_unguarded:
  assumes "\<not> timer_running (state w)" and "time_left (state w) = 0"
    and "pressed i = Some Start" and "pressed j = None"
  shows "script i w = (w\<lparr>state := (state w)\<lparr>timer_running := True\<rparr>\<rparr>, Rerun) \<and>
         data_file (fst (script j (fst (script i w)))) =
           snd (save_session (clock j) (write_fault j) (subject j) (topic j)
                  (of_int (initial_time (state w)) / 60) (break_count (state w)) (data_file w))"
proof -
  let ?w = "w\<lparr>state := (state w)\<lparr>timer_running := True\<rparr>\<rparr>"
  have 1: "script i w = (?w, Rerun)"
    using assms(1,3) by (simp add: script_def Let_def)
  have "data_file (fst (script j ?w)) =
           snd (save_session (clock j) (write_fault j) (subject j) (topic j)
                  (of_int (initial_time (state w)) / 60) (break_count (state w)) (data_file w))"
    using assms(2,4) by (subst script_expire) (auto split: prod.splits sum.splits)
  with 1 show ?thesis by simp
qed

theorem C1_start_unguarded_witness:
  "script (press default_inputs (Some Start)) fresh =
     (\<lparr>state = \<lparr>time_left = 0, timer_running = True, initial_time = 0, break_count = 0\<rparr>,
       data_file = None\<rparr>, Rerun) \<and>
   data_file (fst (script (press default_inputs None)
                (fst (script (press default_inputs (Some Start)) fresh)))) =
     Some (Csv [''Date'', ''Subject'', ''Topic'', ''Duration_Minutes'', ''Breaks'']
             [[S ''2024-01-01 09:00'', S ''General'', S ''Study Session'', F 0, I 0]])"
  using C1_start_unguarded [of fresh "press default_inputs (Some Start)" "press default_inputs None"]
  by (simp add: fresh_def init_state_def default_inputs_def press_def script_def timer_logic_def
      save_session_def load_data_def to_csv_def concat_frames_def
      new_entry_def DATA_COLUMNS_def reindex_def cell_at_def round2_def Let_def)

text \<open>
  C3. After Set / Reset with a duration of \<open>secs > 0\<close> seconds and Start / Resume, any trace
  with exactly \<open>secs\<close> ticks, breaks interleaved at will, ends with nothing left on a
  running timer, the break count being the number of presses of Pause and the history
  file untouched; any trace with fewer ticks still has time left. The run that the last
  tick's \<^verbatim>\<open>st.rerun()\<close> starts is the expiry: it calls \<open>save_session\<close> once, with that break
  count, and stops the timer, so that a further run does nothing.
\<close>

theorem C3_ticks_to_expiry:
  assumes "pressed c = Some SetReset"
    and "secs = hours c * 3600 + minutes c * 60" and "0 < secs"
    and "int (count_list ops Tick) = secs"
    and "pressed j = None"
  shows "runs (c # press b (Some Start) # expand b ops) w =
           \<lparr>state = \<lparr>time_left = 0, timer_running = True, initial_time = secs,
                     break_count = int (count_list ops Break)\<rparr>,
            data_file = data_file w\<rparr> \<and>
         (\<forall>ops'. int (count_list ops' Tick) < secs \<longrightarrow>
            0 < time_left (state (runs (c # press b (Some Start) # expand b ops') w)) \<and>
            data_file (runs (c # press b (Some Start) # expand b ops') w) = data_file w) \<and>
         data_file (runs (c # press b (Some Start) # expand b ops @ [j]) w) =
           snd (save_session (clock j) (write_fault j) (subject j) (topic j)
                  (of_int secs / 60) (int (count_list ops Break)) (data_file w)) \<and>
         \<not> timer_running (state (runs (c # press b (Some Start) # expand b ops @ [j]) w)) \<and>
         runs (c # press b (Some Start) # expand b ops @ [j, j]) w =
           runs (c # press b (Some Start) # expand b ops @ [j]) w"
proof -
  let ?e = "\<lparr>state = \<lparr>time_left = 0, timer_running = True, initial_time = secs,
                     break_count = int (count_list ops Break)\<rparr>,
            data_file = data_file w\<rparr>"
  have le: "int (count_list ops Tick) \<le> hours c * 3600 + minutes c * 60"
    using assms(2,4) by simp
  have A: "runs (c # press b (Some Start) # expand b ops) w = ?e"
    using runs_session[OF assms(1) le, of b w] assms(2,4) by simp
  have B: "\<forall>ops'. int (count_list ops' Tick) < secs \<longrightarrow>
            0 < time_left (state (runs (c # press b (Some Start) # expand b ops') w)) \<and>
            data_file (runs (c # press b (Some Start) # expand b ops') w) = data_file w"
  proof (intro allI impI)
    fix ops' assume "int (count_list ops' Tick) < secs"
    then have "int (count_list ops' Tick) \<le> hours c * 3600 + minutes c * 60"
      and "0 < hours c * 3600 + minutes c * 60 - int (count_list ops' Tick)"
      using assms(2) by simp_all
    then show "0 < time_left (state (runs (c # press b (Some Start) # expand b ops') w)) \<and>
            data_file (runs (c # press b (Some Start) # expand b ops') w) = data_file w"
      using runs_session[OF assms(1), of ops' b w] by simp
  qed
  have split1: "runs (c # press b (Some Start) # expand b ops @ [j]) w = fst (script j ?e)"
    using A runs_append[of "c # press b (Some Start) # expand b ops" "[j]" w] by simp
  have ex: "script j ?e =
     (case save_session (clock j) (write_fault j) (subject j) (topic j)
             (of_int (initial_time (state ?e)) / 60) (break_count (state ?e)) (data_file ?e) of
        (Inl e, f) \<Rightarrow> (\<lparr>state = (state ?e)\<lparr>timer_running := False\<rparr>, data_file = f\<rparr>, Raised e)
      | (Inr u, f) \<Rightarrow>
          (\<lparr>state = \<lparr>time_left = 0, timer_running = False, initial_time = 0, break_count = 0\<rparr>,
            data_file = f\<rparr>, Rerun))"
    using assms(5) by (intro script_expire) simp_all
  have C: "data_file (fst (script j ?e)) =
           snd (save_session (clock j) (write_fault j) (subject j) (topic j)
                  (of_int secs / 60) (int (count_list ops Break)) (data_file w))"
    unfolding ex by (simp split: prod.splits sum.splits)
  have D: "\<not> timer_running (state (fst (script j ?e)))"
    unfolding ex by (simp split: prod.splits sum.splits)
  have idle: "script j (fst (script j ?e)) = (fst (script j ?e), Done)"
    using D assms(5) by (simp add: script_def timer_logic_def Let_def)
  have E: "runs (c # press b (Some Start) # expand b ops @ [j, j]) w = fst (script j ?e)"
    using A idle runs_append[of "c # press b (Some Start) # expand b ops" "[j, j]" w] by simp
  show ?thesis using A B C D E split1 by simp
qed

theorem C3_ticks_to_expiry_witness:
  "runs (configure 0 1 # press default_inputs (Some Start) #
         expand default_inputs (replicate 10 Tick @ Break # replicate 50 Tick)) fresh =
     \<lparr>state = \<lparr>time_left = 0, timer_running = True, initial_time = 60, break_count = 1\<rparr>,
      data_file = None\<rparr> \<and>
   data_file (runs (configure 0 1 # press default_inputs (Some Start) #
         expand default_inputs (replicate 10 Tick @ Break # replicate 50 Tick) @
         [press default_inputs None]) fresh) =
     Some (Csv [''Date'', ''Subject'', ''Topic'', ''Duration_Minutes'', ''Breaks'']
             [[S ''2024-01-01 09:00'', S ''General'', S ''Study Session'', F 1, I 1]])"
proof -
  let ?ops = "replicate 10 Tick @ Break # replicate 50 Tick"
  have h1: "pressed (configure 0 1) = Some SetReset" by (simp add: configure_def)
  have h2: "(60::int) = hours (configure 0 1) * 3600 + minutes (configure 0 1) * 60"
    by (simp add: configure_def)
  have h3: "(0::int) < 60" by simp
  have h4: "int (count_list ?ops Tick) = 60" by (simp add: count_list_replicate_same)
  have h5: "pressed (press default_inputs None) = None" by (simp add: press_def)
  have br: "int (count_list ?ops Break) = 1" by simp
  have sv: "snd (save_session (clock (press default_inputs None)) (write_fault (press default_inputs None))
                  (subject (press default_inputs None)) (topic (press default_inputs None))
                  (of_int 60 / 60) 1 (data_file fresh)) =
     Some (Csv [''Date'', ''Subject'', ''Topic'', ''Duration_Minutes'', ''Breaks'']
             [[S ''2024-01-01 09:00'', S ''General'', S ''Study Session'', F 1, I 1]])"
    by (simp add: default_inputs_def press_def fresh_def save_session_def load_data_def to_csv_def
        concat_frames_def new_entry_def DATA_COLUMNS_def reindex_def cell_at_def round2_def Let_def)
  show ?thesis
    using C3_ticks_to_expiry [OF h1 h2 h3 h4 h5, of default_inputs fresh] br sv
    by (simp add: fresh_def)
qed

text \<open>
  C4. A run that finds the timer running with nothing left appends exactly one row to the
  loaded history, with the duration \<open>initial_time / 60\<close> rounded to two places and the
  current break count, and leaves time left, initial time and break count at zero. In
  particular Set / Reset with 25 minutes, Start / Resume, 1500 ticks and the run the last
  tick asks for persist a duration of 25 and 0 breaks.
\<close>

theorem C4_expiry_saves_and_resets:
  assumes "timer_running (state w)" and "time_left (state w) = 0"
    and "pressed i = None" and "write_fault i = None"
    and "load_data (data_file w) = Inr df"
    and "cols = columns df @ filter (\<lambda>c. c \<notin> set (columns df)) DATA_COLUMNS"
    and "new = reindex DATA_COLUMNS cols
                 [S (clock i), S (subject i), S (topic i),
                  F (round2 (of_int (initial_time (state w)) / 60)), I (break_count (state w))]"
  shows "script i w =
           (\<lparr>state = \<lparr>time_left = 0, timer_running = False, initial_time = 0, break_count = 0\<rparr>,
             data_file = Some (Csv cols (map (reindex (columns df) cols) (rows df) @ [new]))\<rparr>,
            Rerun) \<and>
         cell_at cols new ''Duration_Minutes'' = F (round2 (of_int (initial_time (state w)) / 60)) \<and>
         cell_at cols new ''Breaks'' = I (break_count (state w)) \<and>
         runs (configure 0 25 # press default_inputs (Some Start) #
               expand default_inputs (replicate 1500 Tick) @ [press default_inputs None]) fresh =
           \<lparr>state = \<lparr>time_left = 0, timer_running = False, initial_time = 0, break_count = 0\<rparr>,
            data_file = Some (Csv DATA_COLUMNS
              [[S ''2024-01-01 09:00'', S ''General'', S ''Study Session'', F 25, I 0]])\<rparr>"
proof -
  have sv: "save_session (clock i) (write_fault i) (subject i) (topic i)
             (of_int (initial_time (state w)) / 60) (break_count (state w)) (data_file w) =
          (Inr (), Some (Csv cols (map (reindex (columns df) cols) (rows df) @ [new])))"
    using assms(4,6,7) save_session_ok[OF assms(5)]
    by (simp add: concat_new_entry Let_def)
  have A: "script i w =
           (\<lparr>state = \<lparr>time_left = 0, timer_running = False, initial_time = 0, break_count = 0\<rparr>,
             data_file = Some (Csv cols (map (reindex (columns df) cols) (rows df) @ [new]))\<rparr>,
            Rerun)"
    using assms(1,2,3) by (subst script_expire) (simp_all add: sv)
  have B: "cell_at cols new ''Duration_Minutes'' = F (round2 (of_int (initial_time (state w)) / 60))"
    unfolding assms(7)
    by (subst cell_at_reindex) (simp_all add: assms(6) DATA_COLUMNS_def new_row_cells[unfolded DATA_COLUMNS_def])
  have C: "cell_at cols new ''Breaks'' = I (break_count (state w))"
    unfolding assms(7)
    by (subst cell_at_reindex) (simp_all add: assms(6) DATA_COLUMNS_def new_row_cells[unfolded DATA_COLUMNS_def])
  let ?e = "\<lparr>state = \<lparr>time_left = 0, timer_running = True, initial_time = 1500, break_count = 0\<rparr>,
            data_file = None\<rparr>"
  have "runs (configure 0 25 # press default_inputs (Some Start) #
               expand default_inputs (replicate 1500 Tick)) fresh = ?e"
    by (subst runs_session)
       (simp_all add: configure_def default_inputs_def fresh_def count_list_replicate_same)
  then have "runs (configure 0 25 # press default_inputs (Some Start) #
               expand default_inputs (replicate 1500 Tick) @ [press default_inputs None]) fresh =
             fst (script (press default_inputs None) ?e)"
    using runs_append[of "configure 0 25 # press default_inputs (Some Start) #
               expand default_inputs (replicate 1500 Tick)" "[press default_inputs None]" fresh]
    by simp
  also have "\<dots> = \<lparr>state = \<lparr>time_left = 0, timer_running = False, initial_time = 0, break_count = 0\<rparr>,
            data_file = Some (Csv DATA_COLUMNS
              [[S ''2024-01-01 09:00'', S ''General'', S ''Study Session'', F 25, I 0]])\<rparr>"
    by (simp add: default_inputs_def press_def script_def timer_logic_def
      save_session_def load_data_def to_csv_def concat_frames_def
      new_entry_def DATA_COLUMNS_def reindex_def cell_at_def round2_def Let_def)
  finally show ?thesis using A B C by simp
qed

theorem C4_expiry_saves_and_resets_witness:
  "script (press default_inputs None)
     \<lparr>state = \<lparr>time_left = 0, timer_running = True, initial_time = 1500, break_count = 2\<rparr>,
      data_file = Some (Csv [''Date'', ''Subject'', ''Topic'', ''Duration_Minutes'']
                          [[S ''2023-12-31 08:00'', S ''Maths'', S ''Algebra'', F 50]])\<rparr> =
   (\<lparr>state = \<lparr>time_left = 0, timer_running = False, initial_time = 0, break_count = 0\<rparr>,
     data_file = Some (Csv [''Date'', ''Subject'', ''Topic'', ''Duration_Minutes'', ''Breaks'']
                         [[S ''2023-12-31 08:00'', S ''Maths'', S ''Algebra'', F 50, I 0],
                          [S ''2024-01-01 09:00'', S ''General'', S ''Study Session'', F 25, I 2]])\<rparr>,
    Rerun)"
  using C4_expiry_saves_and_resets [of
     "\<lparr>state = \<lparr>time_left = 0, timer_running = True, initial_time = 1500, break_count = 2\<rparr>,
      data_file = Some (Csv [''Date'', ''Subject'', ''Topic'', ''Duration_Minutes'']
                          [[S ''2023-12-31 08:00'', S ''Maths'', S ''Algebra'', F 50]])\<rparr>"
     "press default_inputs None"
     "\<lparr>columns = [''Date'', ''Subject'', ''Topic'', ''Duration_Minutes'', ''Breaks''],
       rows = [[S ''2023-12-31 08:00'', S ''Maths'', S ''Algebra'', F 50, I 0]]\<rparr>"
     "[''Date'', ''Subject'', ''Topic'', ''Duration_Minutes'', ''Breaks'']"
     "[S ''2024-01-01 09:00'', S ''General'', S ''Study Session'', F 25, I 2]"]
  by (simp add: default_inputs_def press_def load_data_def read_csv_def add_column_def pad_def
      DATA_COLUMNS_def reindex_def cell_at_def round2_def Let_def)

text \<open>
  C10. From the initial state, after any sequence of runs whose number inputs are within
  the widgets' bounds, the time left is between 0 and the initial time, and the value
  given to the progress bar is between 0 and 1.
\<close>

theorem C10_time_left_within_initial:
  assumes "list_all widgets_ok js" and "s = state (runs js \<lparr>state = init_state, data_file = f\<rparr>)"
  shows "0 \<le> time_left s \<and> time_left s \<le> initial_time s \<and> 0 \<le> progress s \<and> progress s \<le> 1"
proof -
  have "0 \<le> time_left s \<and> time_left s \<le> initial_time s"
    unfolding assms(2) by (rule runs_keep_range[OF assms(1)]) (simp add: init_state_def)
  then show ?thesis using progress_range[of s] by simp
qed

theorem C10_time_left_within_initial_witness:
  "list_all widgets_ok [configure 0 1, press default_inputs (Some Start), press default_inputs None] \<and>
   time_left (state (runs [configure 0 1, press default_inputs (Some Start), press default_inputs None] fresh)) = 59 \<and>
   initial_time (state (runs [configure 0 1, press default_inputs (Some Start), press default_inputs None] fresh)) = 60 \<and>
   progress (state (runs [configure 0 1, press default_inputs (Some Start), press default_inputs None] fresh)) = 1 / 60"
  using C10_time_left_within_initial [of "[configure 0 1, press default_inputs (Some Start), press default_inputs None]"
     "state (runs [configure 0 1, press default_inputs (Some Start), press default_inputs None] fresh)" None]
  by (simp add: widgets_ok_def configure_def default_inputs_def press_def fresh_def init_state_def
      script_def timer_logic_def set_reset_def progress_def Let_def)

text \<open>
  C6. When the history file parses and its header has no Breaks column, \<open>load_data\<close>
  returns the table with the column Breaks added: every row has the break count 0, and
  under every column of the file each row has the cell it has in the file.
\<close>

theorem C6_missing_breaks_default:
  assumes "read_csv f = Inr d" and "''Breaks'' \<notin> set (header f)"
  shows "\<exists>df. load_data (Some f) = Inr df \<and>
           columns df = header f @ [''Breaks''] \<and>
           length (rows df) = length (body f) \<and>
           (\<forall>k < length (body f).
              cell_at (columns df) (rows df ! k) ''Breaks'' = I 0 \<and>
              (\<forall>c \<in> set (header f).
                 cell_at (columns df) (rows df ! k) c = cell_at (header f) (body f ! k) c))"
proof -
  let ?n = "length (header f)"
  let ?df = "\<lparr>columns = header f @ [''Breaks''], rows = map (\<lambda>r. pad ?n r @ [I 0]) (body f)\<rparr>"
  from read_csv_Inr[OF assms(1)] have d: "columns d = header f" "rows d = map (pad ?n) (body f)"
    by blast+
  have short: "\<And>r. r \<in> set (body f) \<Longrightarrow> length r \<le> ?n"
    using assms(1) by (auto simp: read_csv_def list_ex_iff not_less split: if_splits)
  have ld: "load_data (Some f) = Inr ?df"
    using assms d by (simp add: load_data_def add_column_def)
  have cells: "cell_at (columns ?df) (rows ?df ! k) ''Breaks'' = I 0 \<and>
              (\<forall>c \<in> set (header f).
                 cell_at (columns ?df) (rows ?df ! k) c = cell_at (header f) (body f ! k) c)"
    if k: "k < length (body f)" for k
  proof -
    from k have len: "length (body f ! k) \<le> ?n" using short by simp
    then have lp: "length (pad ?n (body f ! k)) = ?n" by (rule length_pad)
    have 1: "cell_at (header f @ [''Breaks'']) (pad ?n (body f ! k) @ [I 0]) ''Breaks'' = I 0"
      using cell_at_snoc_new[OF lp] assms(2) by simp
    have 2: "cell_at (header f @ [''Breaks'']) (pad ?n (body f ! k) @ [I 0]) c = cell_at (header f) (body f ! k) c"
      if "c \<in> set (header f)" for c
      using cell_at_snoc_old[OF lp that] cell_at_pad[OF len] by simp
    show ?thesis using 1 2 k by simp
  qed
  show ?thesis
    by (rule exI[of _ ?df]) (use ld cells in simp)
qed

theorem C6_missing_breaks_default_witness:
  "load_data (Some (Csv [''Date'', ''Subject'', ''Topic'', ''Duration_Minutes'']
                 [[S ''2023-12-31 08:00'', S ''Maths'', S ''Algebra'', F 50],
                  [S ''2024-01-01 09:00'', S ''Maths'']])) =
     Inr \<lparr>columns = [''Date'', ''Subject'', ''Topic'', ''Duration_Minutes'', ''Breaks''],
          rows = [[S ''2023-12-31 08:00'', S ''Maths'', S ''Algebra'', F 50, I 0],
                  [S ''2024-01-01 09:00'', S ''Maths'', NaN, NaN, I 0]]\<rparr>"
  using C6_missing_breaks_default [of
     "Csv [''Date'', ''Subject'', ''Topic'', ''Duration_Minutes'']
                 [[S ''2023-12-31 08:00'', S ''Maths'', S ''Algebra'', F 50],
                  [S ''2024-01-01 09:00'', S ''Maths'']]"
     "\<lparr>columns = [''Date'', ''Subject'', ''Topic'', ''Duration_Minutes''],
       rows = [[S ''2023-12-31 08:00'', S ''Maths'', S ''Algebra'', F 50],
               [S ''2024-01-01 09:00'', S ''Maths'', NaN, NaN]]\<rparr>"]
  by (simp add: load_data_def read_csv_def add_column_def pad_def)



text \<open>
  C2, as stated: a failed rewrite leaves the previous content of the file intact. It
  fails: the file is opened for writing and written in place, so a write that fails after
  the header leaves a file with the header alone; the row it held is gone.
\<close>

theorem C2_half_written_counterexample:
  "save_session ''2024-01-02 10:30'' (Some 1) ''Physics'' ''Waves'' 25 0
     (Some (Csv [''Date'', ''Subject'', ''Topic'', ''Duration_Minutes'', ''Breaks'']
              [[S ''2023-12-31 08:00'', S ''Maths'', S ''Algebra'', F 50, I 0]])) =
     (Inl OSError, Some (Csv [''Date'', ''Subject'', ''Topic'', ''Duration_Minutes'', ''Breaks''] [])) \<and>
   snd (save_session ''2024-01-02 10:30'' (Some 1) ''Physics'' ''Waves'' 25 0
     (Some (Csv [''Date'', ''Subject'', ''Topic'', ''Duration_Minutes'', ''Breaks'']
              [[S ''2023-12-31 08:00'', S ''Maths'', S ''Algebra'', F 50, I 0]]))) \<noteq>
     Some (Csv [''Date'', ''Subject'', ''Topic'', ''Duration_Minutes'', ''Breaks'']
              [[S ''2023-12-31 08:00'', S ''Maths'', S ''Algebra'', F 50, I 0]])"
  by (simp add: save_session_def load_data_def read_csv_def to_csv_def written_def pad_def
      concat_frames_def new_entry_def reindex_def cell_at_def round2_def Let_def)

text \<open>
  C2, amended. \<open>save_session\<close> rewrites the file in place. When the history cannot be
  loaded the error is returned and the file is untouched. When the write succeeds the
  file holds the loaded rows, laid out under the columns of the result, followed by the
  new row; with the canonical columns these are exactly the old rows and the new row.
  When the write fails after \<open>k\<close> lines the error is returned and the file holds those
  \<open>k\<close> lines of the new table.
\<close>

theorem C2_append_rewrites_in_place:
  "(load_data f = Inl e \<longrightarrow> save_session now fault sbj tpc d b f = (Inl e, f)) \<and>
   (load_data f = Inr df \<longrightarrow>
      save_session now None sbj tpc d b f =
        (Inr (), Some (Csv (columns df @ filter (\<lambda>c. c \<notin> set (columns df)) DATA_COLUMNS)
           (map (reindex (columns df) (columns df @ filter (\<lambda>c. c \<notin> set (columns df)) DATA_COLUMNS))
                (rows df) @
            [reindex DATA_COLUMNS (columns df @ filter (\<lambda>c. c \<notin> set (columns df)) DATA_COLUMNS)
               [S now, S sbj, S tpc, F (round2 d), I b]]))) \<and>
      (columns df = DATA_COLUMNS \<longrightarrow>
         save_session now None sbj tpc d b f =
           (Inr (), Some (Csv DATA_COLUMNS (rows df @ [[S now, S sbj, S tpc, F (round2 d), I b]])))) \<and>
      save_session now (Some k) sbj tpc d b f =
        (Inl OSError, Some (written (concat_frames df (new_entry now sbj tpc d b)) k)))"
proof (intro conjI impI)
  assume "load_data f = Inl e"
  then show "save_session now fault sbj tpc d b f = (Inl e, f)"
    by (simp add: save_session_def)
next
  assume ld: "load_data f = Inr df"
  show "save_session now None sbj tpc d b f =
        (Inr (), Some (Csv (columns df @ filter (\<lambda>c. c \<notin> set (columns df)) DATA_COLUMNS)
           (map (reindex (columns df) (columns df @ filter (\<lambda>c. c \<notin> set (columns df)) DATA_COLUMNS))
                (rows df) @
            [reindex DATA_COLUMNS (columns df @ filter (\<lambda>c. c \<notin> set (columns df)) DATA_COLUMNS)
               [S now, S sbj, S tpc, F (round2 d), I b]])))"
    by (simp add: save_session_ok[OF ld] concat_new_entry Let_def)
  show "save_session now (Some k) sbj tpc d b f =
        (Inl OSError, Some (written (concat_frames df (new_entry now sbj tpc d b)) k))"
    using ld by (simp add: save_session_def to_csv_def)
  assume cols: "columns df = DATA_COLUMNS"
  have dist: "distinct DATA_COLUMNS" by (simp add: DATA_COLUMNS_def)
  have flt: "filter (\<lambda>c. c \<notin> set DATA_COLUMNS) DATA_COLUMNS = []" by simp
  have old: "map (reindex DATA_COLUMNS DATA_COLUMNS) (rows df) = rows df"
  proof (intro map_idI)
    fix r assume "r \<in> set (rows df)"
    then have "length r = length DATA_COLUMNS"
      using load_data_Inr[OF ld] cols by (simp add: list_all_iff)
    then show "reindex DATA_COLUMNS DATA_COLUMNS r = r" by (rule reindex_same[OF dist])
  qed
  have new: "reindex DATA_COLUMNS DATA_COLUMNS [S now, S sbj, S tpc, F (round2 d), I b] =
             [S now, S sbj, S tpc, F (round2 d), I b]"
    by (rule reindex_same[OF dist]) (simp add: DATA_COLUMNS_def)
  show "save_session now None sbj tpc d b f =
           (Inr (), Some (Csv DATA_COLUMNS (rows df @ [[S now, S sbj, S tpc, F (round2 d), I b]])))"
    by (simp add: save_session_ok[OF ld] concat_new_entry Let_def cols flt old new)
qed

theorem C2_append_rewrites_in_place_witness:
  "save_session ''2024-01-02 10:30'' None ''Physics'' ''Waves'' 25 0
     (Some (Csv [''Date'', ''Subject'', ''Topic'', ''Duration_Minutes'', ''Breaks'']
              [[S ''2023-12-31 08:00'', S ''Maths'', S ''Algebra'', F 50, I 0]])) =
     (Inr (), Some (Csv [''Date'', ''Subject'', ''Topic'', ''Duration_Minutes'', ''Breaks'']
              [[S ''2023-12-31 08:00'', S ''Maths'', S ''Algebra'', F 50, I 0],
               [S ''2024-01-02 10:30'', S ''Physics'', S ''Waves'', F 25, I 0]])) \<and>
   save_session ''2024-01-02 10:30'' (Some 0) ''Physics'' ''Waves'' 25 0 (Some (Csv [] [])) =
     (Inl EmptyDataError, Some (Csv [] []))"
  using C2_append_rewrites_in_place [of
     "Some (Csv [''Date'', ''Subject'', ''Topic'', ''Duration_Minutes'', ''Breaks'']
              [[S ''2023-12-31 08:00'', S ''Maths'', S ''Algebra'', F 50, I 0]])"
     EmptyDataError "''2024-01-02 10:30''" None "''Physics''" "''Waves''" 25 0
     "\<lparr>columns = [''Date'', ''Subject'', ''Topic'', ''Duration_Minutes'', ''Breaks''],
       rows = [[S ''2023-12-31 08:00'', S ''Maths'', S ''Algebra'', F 50, I 0]]\<rparr>" 1]
    C2_append_rewrites_in_place [of "Some (Csv [] [])" EmptyDataError "''2024-01-02 10:30''" "Some 0"
     "''Physics''" "''Waves''" 25 0 "\<lparr>columns = [], rows = []\<rparr>" 0]
  by (simp add: load_data_def read_csv_def DATA_COLUMNS_def round2_def Let_def pad_def
      save_session_def to_csv_def written_def concat_frames_def new_entry_def reindex_def
      cell_at_def)



text \<open>
  C8. On a table with exactly one row whose duration is a number, the longest and the
  shortest session are both that row, and neither lookup raises. On any table, the row
  returned as longest has the greatest duration and every row before it has a strictly
  smaller one, so that among equal durations the first in load order is taken; likewise
  for the shortest with the least duration.
\<close>

theorem C8_longest_and_shortest:
  "(rows df = [r] \<and> ''Duration_Minutes'' \<in> set (columns df) \<and> is_number (duration_of df r) \<longrightarrow>
      longest df = Inr r \<and> shortest df = Inr r) \<and>
   (longest df = Inr r1 \<longrightarrow>
      (\<exists>k < length (rows df). r1 = rows df ! k \<and> duration_of df r1 \<noteq> NaN \<and>
         (\<forall>i < length (rows df). duration_of df (rows df ! i) \<noteq> NaN \<longrightarrow>
            number (duration_of df (rows df ! i)) \<le> number (duration_of df r1)) \<and>
         (\<forall>i < k. duration_of df (rows df ! i) \<noteq> NaN \<longrightarrow>
            number (duration_of df (rows df ! i)) < number (duration_of df r1)))) \<and>
   (shortest df = Inr r2 \<longrightarrow>
      (\<exists>k < length (rows df). r2 = rows df ! k \<and> duration_of df r2 \<noteq> NaN \<and>
         (\<forall>i < length (rows df). duration_of df (rows df ! i) \<noteq> NaN \<longrightarrow>
            number (duration_of df r2) \<le> number (duration_of df (rows df ! i))) \<and>
         (\<forall>i < k. duration_of df (rows df ! i) \<noteq> NaN \<longrightarrow>
            number (duration_of df r2) < number (duration_of df (rows df ! i)))))"
proof (intro conjI impI)
  assume a: "rows df = [r] \<and> ''Duration_Minutes'' \<in> set (columns df) \<and> is_number (duration_of df r)"
  then have col: "column df ''Duration_Minutes'' = Inr [duration_of df r]"
    by (simp add: column_def duration_of_def)
  from a have l: "loc df 0 = Inr r" by (simp add: loc_def)
  show "longest df = Inr r"
    using a col l by (simp add: longest_def idxmax_def idx_best_single)
  show "shortest df = Inr r"
    using a col l by (simp add: shortest_def idxmin_def idx_best_single)
next
  assume "longest df = Inr r1"
  then have "(case column df ''Duration_Minutes'' of
                 Inl e \<Rightarrow> Inl e
               | Inr xs \<Rightarrow> (case idx_best (\<lambda>a b. b < a) xs of Inl e \<Rightarrow> Inl e | Inr k \<Rightarrow> loc df k)) = Inr r1"
    unfolding longest_def idxmax_def .
  from record_row[of "\<lambda>a b. b < a" "\<lambda>x. x", OF _ this]
  show "\<exists>k < length (rows df). r1 = rows df ! k \<and> duration_of df r1 \<noteq> NaN \<and>
         (\<forall>i < length (rows df). duration_of df (rows df ! i) \<noteq> NaN \<longrightarrow>
            number (duration_of df (rows df ! i)) \<le> number (duration_of df r1)) \<and>
         (\<forall>i < k. duration_of df (rows df ! i) \<noteq> NaN \<longrightarrow>
            number (duration_of df (rows df ! i)) < number (duration_of df r1))"
    by simp
next
  assume "shortest df = Inr r2"
  then have "(case column df ''Duration_Minutes'' of
                 Inl e \<Rightarrow> Inl e
               | Inr xs \<Rightarrow> (case idx_best (\<lambda>a b. a < b) xs of Inl e \<Rightarrow> Inl e | Inr k \<Rightarrow> loc df k)) = Inr r2"
    unfolding shortest_def idxmin_def .
  from record_row[of "\<lambda>a b. a < b" "\<lambda>x. - x", OF _ this]
  show "\<exists>k < length (rows df). r2 = rows df ! k \<and> duration_of df r2 \<noteq> NaN \<and>
         (\<forall>i < length (rows df). duration_of df (rows df ! i) \<noteq> NaN \<longrightarrow>
            number (duration_of df r2) \<le> number (duration_of df (rows df ! i))) \<and>
         (\<forall>i < k. duration_of df (rows df ! i) \<noteq> NaN \<longrightarrow>
            number (duration_of df r2) < number (duration_of df (rows df ! i)))"
    by simp
qed

theorem C8_longest_and_shortest_witness:
  "longest \<lparr>columns = DATA_COLUMNS, rows = [[S ''d1'', S ''Maths'', S ''t'', F 25, I 1]]\<rparr> =
     Inr [S ''d1'', S ''Maths'', S ''t'', F 25, I 1] \<and>
   shortest \<lparr>columns = DATA_COLUMNS, rows = [[S ''d1'', S ''Maths'', S ''t'', F 25, I 1]]\<rparr> =
     Inr [S ''d1'', S ''Maths'', S ''t'', F 25, I 1] \<and>
   longest \<lparr>columns = DATA_COLUMNS,
      rows = [[S ''d1'', S ''Maths'', S ''t'', F 10, I 1],
              [S ''d2'', S ''Art'', S ''t'', F 30, I 0],
              [S ''d3'', S ''Music'', S ''t'', F 30, I 2],
              [S ''d4'', S ''Latin'', S ''t'', F 10, I 0]]\<rparr> =
     Inr [S ''d2'', S ''Art'', S ''t'', F 30, I 0] \<and>
   shortest \<lparr>columns = DATA_COLUMNS,
      rows = [[S ''d1'', S ''Maths'', S ''t'', F 10, I 1],
              [S ''d2'', S ''Art'', S ''t'', F 30, I 0],
              [S ''d3'', S ''Music'', S ''t'', F 30, I 2],
              [S ''d4'', S ''Latin'', S ''t'', F 10, I 0]]\<rparr> =
     Inr [S ''d1'', S ''Maths'', S ''t'', F 10, I 1]"
  using C8_longest_and_shortest [of
      "\<lparr>columns = DATA_COLUMNS, rows = [[S ''d1'', S ''Maths'', S ''t'', F 25, I 1]]\<rparr>"
      "[S ''d1'', S ''Maths'', S ''t'', F 25, I 1]"
      "[S ''d1'', S ''Maths'', S ''t'', F 25, I 1]" "[S ''d1'', S ''Maths'', S ''t'', F 25, I 1]"]
    C8_longest_and_shortest [of
      "\<lparr>columns = DATA_COLUMNS,
      rows = [[S ''d1'', S ''Maths'', S ''t'', F 10, I 1],
              [S ''d2'', S ''Art'', S ''t'', F 30, I 0],
              [S ''d3'', S ''Music'', S ''t'', F 30, I 2],
              [S ''d4'', S ''Latin'', S ''t'', F 10, I 0]]\<rparr>"
      "[]" "[S ''d2'', S ''Art'', S ''t'', F 30, I 0]" "[S ''d1'', S ''Maths'', S ''t'', F 10, I 1]"]
  by (simp add: longest_def shortest_def idxmax_def idxmin_def idx_best_def column_def loc_def
      cell_at_def DATA_COLUMNS_def duration_of_def)

end
